theory Spec2Isabelle
  imports Complex_Main
begin

section \<open>Python strings\<close>

text \<open>
  A Python \<open>str\<close> is a sequence of Unicode code points.  Code points are natural
  numbers here and a string is a list of them; \<open>lit\<close> reads an ASCII literal of the
  source.
\<close>

type_synonym codepoint = nat
type_synonym pystr = "codepoint list"

definition lit :: "string \<Rightarrow> pystr" where
  "lit s = map of_char s"

text \<open>
  \<open>str.upper\<close>, \<open>str.lower\<close> and the regular-expression class \<open>\w\<close> consult the
  interpreter's Unicode database, which is no part of the repository.  What they do
  on ASCII is written out below; what they do on a code point from 128 on is taken
  from these tables, a parameter of every function that depends on it.  The
  upper-case form of one code point may be several code points.  \<open>str.lower\<close> is
  context sensitive outside ASCII, so its table receives the whole string and the
  position.
\<close>

record unicode_tables =
  upper_tab :: "codepoint \<Rightarrow> pystr"
  lower_tab :: "pystr \<Rightarrow> nat \<Rightarrow> pystr"
  word_tab :: "codepoint \<Rightarrow> bool"

definition is_ascii_lower :: "codepoint \<Rightarrow> bool" where
  "is_ascii_lower c = (97 \<le> c \<and> c \<le> 122)"

definition is_ascii_upper :: "codepoint \<Rightarrow> bool" where
  "is_ascii_upper c = (65 \<le> c \<and> c \<le> 90)"

definition is_ascii_digit :: "codepoint \<Rightarrow> bool" where
  "is_ascii_digit c = (48 \<le> c \<and> c \<le> 57)"

definition upper_cp :: "unicode_tables \<Rightarrow> codepoint \<Rightarrow> pystr" where
  "upper_cp ut c =
     (if is_ascii_lower c then [c - 32]
      else if c < 128 then [c]
      else upper_tab ut c)"

definition py_upper :: "unicode_tables \<Rightarrow> pystr \<Rightarrow> pystr" where
  "py_upper ut s = concat (map (upper_cp ut) s)"

definition lower_cp :: "unicode_tables \<Rightarrow> pystr \<Rightarrow> nat \<Rightarrow> pystr" where
  "lower_cp ut s i =
     (let c = s ! i in
      if is_ascii_upper c then [c + 32]
      else if c < 128 then [c]
      else lower_tab ut s i)"

definition py_lower :: "unicode_tables \<Rightarrow> pystr \<Rightarrow> pystr" where
  "py_lower ut s = concat (map (lower_cp ut s) [0 ..< length s])"

text \<open>\<open>s.startswith(k)\<close>, and the substring test \<open>k in s\<close>.\<close>

fun startswith :: "pystr \<Rightarrow> pystr \<Rightarrow> bool" where
  "startswith s [] = True"
| "startswith [] (k # ks) = False"
| "startswith (c # s) (k # ks) = (c = k \<and> startswith s ks)"

fun py_in :: "pystr \<Rightarrow> pystr \<Rightarrow> bool" where
  "py_in k [] = (k = [])"
| "py_in k (c # s) = (startswith (c # s) k \<or> py_in k s)"

section \<open>filters.py: the affiliation classifier\<close>

definition company_keywords :: "pystr list" where
  "company_keywords = map lit
     [''Inc'', ''Ltd'', ''LLC'', ''Corporation'', ''Corp'', ''GmbH'',
      ''Pharma'', ''Biotech'', ''Therapeutics'', ''Company'', ''Co'',
      ''Pharmaceuticals'', ''Biotechnology'', ''Biosciences'',
      ''Labs'', ''Laboratories'', ''Technologies'']"

definition non_company_keywords :: "pystr list" where
  "non_company_keywords = map lit
     [''University'', ''Institute'', ''College'', ''School'',
      ''Hospital'', ''Medical Center'', ''Clinic'', ''Foundation'',
      ''Research Center'', ''Academy'', ''Department of'',
      ''Ministry of'', ''National'', ''Federal'']"

text \<open>
  One keyword loop of \<open>is_company_affiliated\<close>:
  \<^verbatim>\<open>for keyword in keywords: if keyword.upper() in affiliation_upper: return ...\<close>
  The value says whether the loop returned.
\<close>

fun keyword_loop :: "unicode_tables \<Rightarrow> pystr list \<Rightarrow> pystr \<Rightarrow> bool" where
  "keyword_loop ut [] affiliation_upper = False"
| "keyword_loop ut (keyword # keywords) affiliation_upper =
     (if py_in (py_upper ut keyword) affiliation_upper then True
      else keyword_loop ut keywords affiliation_upper)"

definition is_company_affiliated :: "unicode_tables \<Rightarrow> pystr \<Rightarrow> bool" where
  "is_company_affiliated ut affiliation =
     (let affiliation_upper = py_upper ut affiliation in
      if keyword_loop ut non_company_keywords affiliation_upper then False
      else if keyword_loop ut company_keywords affiliation_upper then True
      else False)"

text \<open>
  The tables of a runtime that maps no code point outside ASCII; used to evaluate
  the functions on concrete ASCII inputs.
\<close>

definition ascii_tables :: unicode_tables where
  "ascii_tables = \<lparr>upper_tab = (\<lambda>c. [c]), lower_tab = (\<lambda>s i. [s ! i]), word_tab = (\<lambda>c. False)\<rparr>"

section \<open>api.py: the raw records\<close>

text \<open>
  The dictionaries the parser of the remote service returns.  A key that may be
  missing is an \<open>option\<close> field (\<open>None\<close>: the key is absent); a dictionary of
  strings (a date record, an affiliation entry) is an association list.
\<close>

datatype py_error = KeyError | IndexError | ValueError | ZeroDivisionError | RemoteServiceError

type_synonym pydict = "(pystr \<times> pystr) list"

record author =
  LastName :: "pystr option"
  ForeName :: "pystr option"
  AffiliationInfo :: "pydict list option"

record journal_issue =
  PubDate :: "pydict option"

record journal =
  JournalIssue :: "journal_issue option"

record article =
  ArticleTitle :: "pystr option"
  ArticleDate :: "pydict list option"
  Journal :: "journal option"
  AuthorList :: "author list option"

record medline_citation =
  PMID :: "pystr option"
  Article :: "article option"

record pubmed_article =
  MedlineCitation :: "medline_citation option"

text \<open>\<open>d.get(k, default)\<close>, \<open>d[k]\<close> on a field that may be absent, and \<open>xs[0]\<close>.\<close>

definition dict_get :: "pydict \<Rightarrow> pystr \<Rightarrow> pystr \<Rightarrow> pystr" where
  "dict_get d k dflt = (case map_of d k of None \<Rightarrow> dflt | Some v \<Rightarrow> v)"

definition field_get :: "'a option \<Rightarrow> 'a \<Rightarrow> 'a" where
  "field_get f dflt = (case f of None \<Rightarrow> dflt | Some v \<Rightarrow> v)"

definition subscript :: "'a option \<Rightarrow> py_error + 'a" where
  "subscript f = (case f of None \<Rightarrow> Inl KeyError | Some v \<Rightarrow> Inr v)"

definition first_item :: "'a list \<Rightarrow> py_error + 'a" where
  "first_item xs = (case xs of [] \<Rightarrow> Inl IndexError | x # _ \<Rightarrow> Inr x)"

section \<open>api.py: the normalised record\<close>

record author_data =
  last_name :: pystr
  first_name :: pystr
  affiliation :: pystr

record paper_data =
  pmid :: pystr
  title :: pystr
  publication_date :: pystr
  authors :: "author_data list"
  affiliations :: "pystr list"
  corresponding_email :: "pystr option"

subsection \<open>\<open>_extract_publication_date\<close>\<close>

text \<open>The body of the \<open>try\<close>; \<open>Inl\<close> is the exception it raises.\<close>

definition publication_date_try :: "article \<Rightarrow> py_error + pystr" where
  "publication_date_try art =
     (case first_item (field_get (ArticleDate art) [[]]) of
        Inl e \<Rightarrow> Inl e
      | Inr pub_date \<Rightarrow>
          if pub_date \<noteq> [] then
            Inr (dict_get pub_date (lit ''Year'') [] @ lit ''-''
                 @ dict_get pub_date (lit ''Month'') [] @ lit ''-''
                 @ dict_get pub_date (lit ''Day'') [])
          else
            (case subscript (Journal art) of
               Inl e \<Rightarrow> Inl e
             | Inr j \<Rightarrow>
                 (case subscript (JournalIssue j) of
                    Inl e \<Rightarrow> Inl e
                  | Inr ji \<Rightarrow>
                      (case subscript (PubDate ji) of
                         Inl e \<Rightarrow> Inl e
                       | Inr pd \<Rightarrow> Inr (dict_get pd (lit ''Year'') [])))))"

text \<open>\<open>except (KeyError, IndexError): return ""\<close>; any other exception would escape.\<close>

definition extract_publication_date :: "article \<Rightarrow> py_error + pystr" where
  "extract_publication_date art =
     (case publication_date_try art of
        Inl e \<Rightarrow> if e = KeyError \<or> e = IndexError then Inr [] else Inl e
      | Inr v \<Rightarrow> Inr v)"

subsection \<open>\<open>_extract_authors\<close>\<close>

text \<open>
  The loop over the author list.  It returns the list built so far and the exception
  that stopped it, if one did: the \<open>[0]\<close> on the affiliation entries raises
  \<open>IndexError\<close> when the list is empty.
\<close>

fun authors_loop :: "author list \<Rightarrow> author_data list \<Rightarrow> author_data list \<times> py_error option" where
  "authors_loop [] acc = (acc, None)"
| "authors_loop (a # as) acc =
     (case first_item (field_get (AffiliationInfo a) [[]]) of
        Inl e \<Rightarrow> (acc, Some e)
      | Inr aff \<Rightarrow>
          authors_loop as
            (acc @ [\<lparr>last_name = field_get (LastName a) [],
                      first_name = field_get (ForeName a) [],
                      affiliation = dict_get aff (lit ''Affiliation'') []\<rparr>]))"

text \<open>\<open>except KeyError: pass\<close>, then \<open>return authors\<close>; any other exception escapes.\<close>

definition extract_authors :: "article \<Rightarrow> py_error + author_data list" where
  "extract_authors art =
     (case subscript (AuthorList art) of
        Inl e \<Rightarrow> if e = KeyError then Inr [] else Inl e
      | Inr l \<Rightarrow>
          (case authors_loop l [] of
             (acc, None) \<Rightarrow> Inr acc
           | (acc, Some e) \<Rightarrow> if e = KeyError then Inr acc else Inl e))"

subsection \<open>\<open>_extract_affiliations\<close>\<close>

text \<open>
  The \<open>set\<close> of the source is kept as a list without repetition, in the order of
  first insertion.  Python leaves the order of \<open>list(affiliations)\<close> open; nothing
  below depends on it.
\<close>

definition set_add :: "pystr list \<Rightarrow> pystr \<Rightarrow> pystr list" where
  "set_add xs x = (if x \<in> set xs then xs else xs @ [x])"

fun affiliation_entries_loop :: "pydict list \<Rightarrow> pystr list \<Rightarrow> pystr list" where
  "affiliation_entries_loop [] acc = acc"
| "affiliation_entries_loop (aff # affs) acc =
     (case map_of aff (lit ''Affiliation'') of
        Some v \<Rightarrow> affiliation_entries_loop affs (set_add acc v)
      | None \<Rightarrow> affiliation_entries_loop affs acc)"

fun affiliations_loop :: "author list \<Rightarrow> pystr list \<Rightarrow> pystr list" where
  "affiliations_loop [] acc = acc"
| "affiliations_loop (a # as) acc =
     affiliations_loop as (affiliation_entries_loop (field_get (AffiliationInfo a) []) acc)"

definition extract_affiliations :: "article \<Rightarrow> py_error + pystr list" where
  "extract_affiliations art =
     (case subscript (AuthorList art) of
        Inl e \<Rightarrow> if e = KeyError then Inr [] else Inl e
      | Inr l \<Rightarrow> Inr (affiliations_loop l []))"

subsection \<open>\<open>_extract_corresponding_email\<close>\<close>

text \<open>
  The pattern \<^verbatim>\<open>[\w\.-]+@[\w\.-]+\.\w+\<close>.  \<open>\w\<close> is a letter, a digit or the
  underscore; the class \<^verbatim>\<open>[\w\.-]\<close> adds the dot (46) and the hyphen (45); 64
  is the at sign.
\<close>

definition is_word :: "unicode_tables \<Rightarrow> codepoint \<Rightarrow> bool" where
  "is_word ut c =
     (if c < 128 then is_ascii_lower c \<or> is_ascii_upper c \<or> is_ascii_digit c \<or> c = 95
      else word_tab ut c)"

definition is_word_dot_hyphen :: "unicode_tables \<Rightarrow> codepoint \<Rightarrow> bool" where
  "is_word_dot_hyphen ut c = (is_word ut c \<or> c = 46 \<or> c = 45)"

text \<open>
  The backtracking matcher.  Each function returns what can remain of the string
  after its part of the pattern has matched, in the order in which the engine tries
  the alternatives: a greedy \<open>+\<close> tries the longest repetition first.
\<close>

fun plus_greedy :: "(codepoint \<Rightarrow> bool) \<Rightarrow> pystr \<Rightarrow> pystr list" where
  "plus_greedy p [] = []"
| "plus_greedy p (c # s) = (if p c then plus_greedy p s @ [s] else [])"

definition literal :: "codepoint \<Rightarrow> pystr \<Rightarrow> pystr list" where
  "literal c s = (case s of [] \<Rightarrow> [] | x # t \<Rightarrow> if x = c then [t] else [])"

definition email_pattern :: "unicode_tables \<Rightarrow> pystr \<Rightarrow> pystr list" where
  "email_pattern ut s =
     concat (map (\<lambda>s1.
       concat (map (\<lambda>s2.
         concat (map (\<lambda>s3.
           concat (map (\<lambda>s4. plus_greedy (is_word ut) s4)
             (literal 46 s3)))
           (plus_greedy (is_word_dot_hyphen ut) s2)))
         (literal 64 s1)))
       (plus_greedy (is_word_dot_hyphen ut) s))"

text \<open>The match that starts at the head of \<open>s\<close>: the first alternative that succeeds.\<close>

definition match_here :: "unicode_tables \<Rightarrow> pystr \<Rightarrow> pystr option" where
  "match_here ut s =
     (case email_pattern ut s of
        [] \<Rightarrow> None
      | r # _ \<Rightarrow> Some (take (length s - length r) s))"

text \<open>\<open>re.search(...)\<close> followed by \<open>group(0)\<close>: the leftmost start that matches.\<close>

fun re_search :: "unicode_tables \<Rightarrow> pystr \<Rightarrow> pystr option" where
  "re_search ut [] = match_here ut []"
| "re_search ut (c # s) =
     (case match_here ut (c # s) of
        Some m \<Rightarrow> Some m
      | None \<Rightarrow> re_search ut s)"

fun email_entries_loop :: "unicode_tables \<Rightarrow> pydict list \<Rightarrow> pystr option" where
  "email_entries_loop ut [] = None"
| "email_entries_loop ut (aff # affs) =
     (let affiliation = dict_get aff (lit ''Affiliation'') [] in
      if py_in (lit ''email'') (py_lower ut affiliation) \<or> py_in (lit ''@'') affiliation then
        (case re_search ut affiliation of
           Some m \<Rightarrow> Some m
         | None \<Rightarrow> email_entries_loop ut affs)
      else email_entries_loop ut affs)"

fun email_loop :: "unicode_tables \<Rightarrow> author list \<Rightarrow> pystr option" where
  "email_loop ut [] = None"
| "email_loop ut (a # as) =
     (case AffiliationInfo a of
        None \<Rightarrow> email_loop ut as
      | Some affs \<Rightarrow>
          (case email_entries_loop ut affs of
             Some m \<Rightarrow> Some m
           | None \<Rightarrow> email_loop ut as))"

definition extract_corresponding_email :: "unicode_tables \<Rightarrow> article \<Rightarrow> py_error + pystr option" where
  "extract_corresponding_email ut art =
     (case subscript (AuthorList art) of
        Inl e \<Rightarrow> if e = KeyError then Inr None else Inl e
      | Inr l \<Rightarrow> Inr (email_loop ut l))"

subsection \<open>The loop of \<open>fetch_and_filter_papers\<close>\<close>

text \<open>
  The body of the loop up to the dictionary \<open>paper_data\<close>.  No exception is caught
  here: a missing key and an exception of an extractor leave the method.
\<close>

definition extract_paper :: "unicode_tables \<Rightarrow> pubmed_article \<Rightarrow> py_error + paper_data" where
  "extract_paper ut paper =
     (case subscript (MedlineCitation paper) of
        Inl e \<Rightarrow> Inl e
      | Inr mc \<Rightarrow>
     (case subscript (Article mc) of
        Inl e \<Rightarrow> Inl e
      | Inr art \<Rightarrow>
     (case subscript (PMID mc) of
        Inl e \<Rightarrow> Inl e
      | Inr p \<Rightarrow>
     (case subscript (ArticleTitle art) of
        Inl e \<Rightarrow> Inl e
      | Inr t \<Rightarrow>
     (case extract_publication_date art of
        Inl e \<Rightarrow> Inl e
      | Inr d \<Rightarrow>
     (case extract_authors art of
        Inl e \<Rightarrow> Inl e
      | Inr aus \<Rightarrow>
     (case extract_affiliations art of
        Inl e \<Rightarrow> Inl e
      | Inr affs \<Rightarrow>
     (case extract_corresponding_email ut art of
        Inl e \<Rightarrow> Inl e
      | Inr em \<Rightarrow>
          Inr \<lparr>pmid = p, title = t, publication_date = d, authors = aus,
               affiliations = affs, corresponding_email = em\<rparr>))))))))"

text \<open>\<open>sum(1 for aff in paper_data["affiliations"] if is_company_affiliated(aff))\<close>\<close>

fun company_count :: "unicode_tables \<Rightarrow> pystr list \<Rightarrow> int" where
  "company_count ut [] = 0"
| "company_count ut (aff # affs) =
     (if is_company_affiliated ut aff then 1 + company_count ut affs else company_count ut affs)"

fun filter_loop ::
  "unicode_tables \<Rightarrow> int \<Rightarrow> pubmed_article list \<Rightarrow> paper_data list \<Rightarrow> py_error + paper_data list" where
  "filter_loop ut min_companies [] filtered_papers = Inr filtered_papers"
| "filter_loop ut min_companies (paper # papers) filtered_papers =
     (case extract_paper ut paper of
        Inl e \<Rightarrow> Inl e
      | Inr pd \<Rightarrow>
          if company_count ut (affiliations pd) \<ge> min_companies
          then filter_loop ut min_companies papers (filtered_papers @ [pd])
          else filter_loop ut min_companies papers filtered_papers)"

section \<open>api.py: the fetcher and its rate limit\<close>

record pubmed_api =
  email :: pystr
  min_request_interval :: real
  last_request_time :: real

text \<open>
  The times of the source are Python floats, IEEE doubles.  They are real numbers
  here, and every arithmetic operation of the source is the exact operation followed
  by \<open>double_round\<close>: rounding to the nearest number with a significand of 53 bits,
  ties to the even significand.  The range of the exponent is left out (no overflow,
  no subnormal numbers), which the times of a clock never reach.
\<close>

definition round_half_even :: "real \<Rightarrow> int" where
  "round_half_even x =
     (let f = \<lfloor>x\<rfloor>; r = x - of_int f in
      if r < 1 / 2 then f
      else if 1 / 2 < r then f + 1
      else if even f then f else f + 1)"

definition double_round :: "real \<Rightarrow> real" where
  "double_round x =
     (if x = 0 then 0
      else
        (let e = \<lfloor>log 2 \<bar>x\<bar>\<rfloor> - 52 in
         of_int (round_half_even (x / 2 powr of_int e)) * 2 powr of_int e))"

text \<open>
  \<open>PubMedAPI.__init__\<close>.  \<open>email_arg\<close> is the constructor's argument and \<open>env_email\<close>
  what \<open>os.environ.get("NCBI_EMAIL")\<close> returns.  The \<open>ValueError\<close> of the source is
  the configuration error of the specification.
\<close>

definition truthy :: "pystr option \<Rightarrow> bool" where
  "truthy v = (case v of None \<Rightarrow> False | Some s \<Rightarrow> s \<noteq> [])"

definition PubMedAPI_init :: "pystr option \<Rightarrow> pystr option \<Rightarrow> real \<Rightarrow> py_error + pubmed_api" where
  "PubMedAPI_init email_arg env_email requests_per_second =
     (let self_email = (if truthy email_arg then email_arg else env_email) in
      if \<not> truthy self_email then Inl ValueError
      else if requests_per_second = 0 then Inl ZeroDivisionError
      else Inr \<lparr>email = field_get self_email [],
                min_request_interval = double_round (1 / requests_per_second),
                last_request_time = 0\<rparr>)"

text \<open>
  The clock is the environment's.  One call of \<open>_wait_for_rate_limit\<close> reads it
  twice and may sleep in between; a \<open>tick\<close> is what the environment contributes to
  that call: the first reading (the double \<open>time.time()\<close> returns on entry), the time
  by which \<open>time.sleep\<close> oversleeps, and the time that passes between waking up and
  the second reading.  The second reading is the double nearest to the time then.
\<close>

record tick =
  reading :: real
  oversleep :: real
  lag :: real

definition wait_for_rate_limit :: "pubmed_api \<Rightarrow> tick \<Rightarrow> pubmed_api" where
  "wait_for_rate_limit self tk =
     (let current_time = reading tk;
          time_since_last_request = double_round (current_time - last_request_time self);
          woke = (if time_since_last_request < min_request_interval self
                  then current_time
                       + double_round (min_request_interval self - time_since_last_request)
                       + oversleep tk
                  else current_time)
      in self\<lparr>last_request_time := double_round (woke + lag tk)\<rparr>)"

text \<open>
  The answers of the remote service, and \<open>fetch_and_filter_papers\<close>.  The query and
  \<open>max_results\<close> go to the service unread and are left out.
\<close>

record remote =
  esearch :: "py_error + pystr list"
  efetch :: "py_error + pubmed_article list"

definition fetch_and_filter_papers ::
  "unicode_tables \<Rightarrow> pubmed_api \<Rightarrow> tick \<Rightarrow> tick \<Rightarrow> remote \<Rightarrow> int
     \<Rightarrow> pubmed_api \<times> (py_error + paper_data list)" where
  "fetch_and_filter_papers ut self tk1 tk2 svc min_companies =
     (let self1 = wait_for_rate_limit self tk1 in
      case esearch svc of
        Inl e \<Rightarrow> (self1, Inl e)
      | Inr id_list \<Rightarrow>
          if id_list = [] then (self1, Inr [])
          else
            (let self2 = wait_for_rate_limit self1 tk2 in
             case efetch svc of
               Inl e \<Rightarrow> (self2, Inl e)
             | Inr papers \<Rightarrow> (self2, filter_loop ut min_companies papers [])))"

text \<open>
  \<open>search_pubmed\<close> and \<open>fetch_details\<close>: the wait, then one request whose answer
  (\<open>Inl\<close>: \<open>raise_for_status\<close> or the decoding raised) is the environment's.
\<close>

definition search_pubmed :: "pubmed_api \<Rightarrow> tick \<Rightarrow> py_error + pystr list \<Rightarrow> pubmed_api \<times> (py_error + pystr list)" where
  "search_pubmed self tk response = (wait_for_rate_limit self tk, response)"

definition fetch_details :: "pubmed_api \<Rightarrow> tick \<Rightarrow> py_error + pystr \<Rightarrow> pubmed_api \<times> (py_error + pystr)" where
  "fetch_details self tk response = (wait_for_rate_limit self tk, response)"

text \<open>The timestamps a run of waits records on one instance, oldest first.\<close>

fun stamps :: "pubmed_api \<Rightarrow> tick list \<Rightarrow> real list" where
  "stamps self [] = []"
| "stamps self (tk # tks) =
     (let self' = wait_for_rate_limit self tk in last_request_time self' # stamps self' tks)"

section \<open>Notions of the specification\<close>

text \<open>
  Case-insensitive containment as the specification defines it: both strings are
  brought to upper case, then the keyword is looked for as a substring.
\<close>

definition contains_ci :: "unicode_tables \<Rightarrow> pystr \<Rightarrow> pystr \<Rightarrow> bool" where
  "contains_ci ut s k = py_in (py_upper ut k) (py_upper ut s)"

text \<open>The two keyword lists as the specification spells them.\<close>

definition spec_non_company_keywords :: "pystr list" where
  "spec_non_company_keywords = map lit
     [''university'', ''institute'', ''college'', ''school'', ''hospital'',
      ''medical center'', ''clinic'', ''foundation'', ''research center'', ''academy'',
      ''department of'', ''ministry of'', ''national'', ''federal'']"

definition spec_company_keywords :: "pystr list" where
  "spec_company_keywords = map lit
     [''inc'', ''ltd'', ''llc'', ''corporation'', ''corp'', ''gmbh'', ''pharma'',
      ''biotech'', ''therapeutics'', ''company'', ''co'', ''pharmaceuticals'',
      ''biotechnology'', ''biosciences'', ''labs'', ''laboratories'', ''technologies'']"

text \<open>
  Two code points are the same letter up to case when they are equal or are the
  lower-case and the upper-case form of one ASCII letter; a code point outside ASCII
  is the same letter as itself only, whatever the tables say.  Two strings differ
  only in the case of ASCII letters when they do so position by position.
\<close>

definition same_letter :: "unicode_tables \<Rightarrow> codepoint \<Rightarrow> codepoint \<Rightarrow> bool" where
  "same_letter ut c d =
     (c = d \<or> (is_ascii_lower c \<and> d + 32 = c) \<or> (is_ascii_upper c \<and> d = c + 32))"

definition case_variant :: "unicode_tables \<Rightarrow> pystr \<Rightarrow> pystr \<Rightarrow> bool" where
  "case_variant ut s t = list_all2 (same_letter ut) s t"

text \<open>
  The entries of Python's tables for the two sharp s: \<open>str.upper\<close> maps the small
  one, U+00DF (223), to "SS" and leaves the capital one, U+1E9E (7838), as it is;
  \<open>str.lower\<close> maps the capital one to the small one.  Every other code point
  outside ASCII is left as it is here.
\<close>

definition sharp_s_tables :: unicode_tables where
  "sharp_s_tables =
     \<lparr>upper_tab = (\<lambda>c. if c = 223 then [83, 83] else [c]),
      lower_tab = (\<lambda>s i. if s ! i = 7838 then [223] else [s ! i]),
      word_tab = (\<lambda>c. False)\<rparr>"

text \<open>
  The record-level affiliations as the specification describes them: every
  affiliation string of every affiliation entry of every author, in order.
\<close>

definition affiliation_strings :: "article \<Rightarrow> pystr list" where
  "affiliation_strings art =
     concat (map (\<lambda>a.
       concat (map (\<lambda>aff. case map_of aff (lit ''Affiliation'') of None \<Rightarrow> [] | Some v \<Rightarrow> [v])
         (field_get (AffiliationInfo a) [])))
       (field_get (AuthorList art) []))"

text \<open>
  The batch \<open>fetch_and_filter_papers\<close> works on: what the fetch request returned, and
  nothing when no request was made or one failed.
\<close>

definition fetched_batch :: "remote \<Rightarrow> pubmed_article list" where
  "fetched_batch svc =
     (case esearch svc of
        Inl e \<Rightarrow> []
      | Inr id_list \<Rightarrow>
          if id_list = [] then []
          else (case efetch svc of Inl e \<Rightarrow> [] | Inr papers \<Rightarrow> papers))"

text \<open>The record of \<open>tests/test_api.py\<close>, and what the extraction makes of it.\<close>

definition test_author :: author where
  "test_author = \<lparr>LastName = Some (lit ''Smith''), ForeName = Some (lit ''John''),
            AffiliationInfo = Some [[(lit ''Affiliation'', lit ''Pfizer Inc.'')]]\<rparr>"

definition test_paper :: pubmed_article where
  "test_paper = \<lparr>MedlineCitation = Some \<lparr>PMID = Some (lit ''12345''),
     Article = Some \<lparr>ArticleTitle = Some (lit ''Test Paper 1''), ArticleDate = None,
       Journal = Some \<lparr>JournalIssue = Some \<lparr>PubDate = Some [(lit ''Year'', lit ''2023'')]\<rparr>\<rparr>,
       AuthorList = Some [test_author]\<rparr>\<rparr>\<rparr>"

definition test_remote :: remote where
  "test_remote = \<lparr>esearch = Inr [lit ''12345'', lit ''67890''], efetch = Inr [test_paper]\<rparr>"

definition test_data :: paper_data where
  "test_data = \<lparr>pmid = lit ''12345'', title = lit ''Test Paper 1'', publication_date = lit ''2023'',
     authors = [\<lparr>last_name = lit ''Smith'', first_name = lit ''John'', affiliation = lit ''Pfizer Inc.''\<rparr>],
     affiliations = [lit ''Pfizer Inc.''], corresponding_email = None\<rparr>"

text \<open>
  The shape the specification gives an address: a local part of word, dot and hyphen
  characters, the at sign, a domain of word, dot and hyphen characters, a dot, and a
  top-level label of word characters; each part is not empty.
\<close>

definition email_shape :: "unicode_tables \<Rightarrow> pystr \<Rightarrow> bool" where
  "email_shape ut m =
     (\<exists>l d t. m = l @ 64 # d @ 46 # t
        \<and> l \<noteq> [] \<and> list_all (is_word_dot_hyphen ut) l
        \<and> d \<noteq> [] \<and> list_all (is_word_dot_hyphen ut) d
        \<and> t \<noteq> [] \<and> list_all (is_word ut) t)"

text \<open>
  The affiliation texts in the order of the scan: author by author, and for each
  author who has affiliation entries, entry by entry; an entry without a text counts
  as the empty text.  \<open>mentions_email\<close> is the test a text must pass before the
  pattern is tried, and \<open>first_match\<close> picks the first result that is a match.
\<close>

definition affiliation_texts :: "article \<Rightarrow> pystr list" where
  "affiliation_texts art =
     concat (map (\<lambda>a. case AffiliationInfo a of
                        None \<Rightarrow> []
                      | Some affs \<Rightarrow> map (\<lambda>aff. dict_get aff (lit ''Affiliation'') []) affs)
       (field_get (AuthorList art) []))"

definition mentions_email :: "unicode_tables \<Rightarrow> pystr \<Rightarrow> bool" where
  "mentions_email ut text = (py_in (lit ''email'') (py_lower ut text) \<or> py_in (lit ''@'') text)"

fun first_match :: "'a option list \<Rightarrow> 'a option" where
  "first_match [] = None"
| "first_match (None # xs) = first_match xs"
| "first_match (Some m # xs) = Some m"

text \<open>An article with the affiliation text of the specification's example.\<close>

definition email_article :: article where
  "email_article = \<lparr>ArticleTitle = Some (lit ''T''), ArticleDate = None, Journal = None,
     AuthorList = Some
       [\<lparr>LastName = Some (lit ''Roe''), ForeName = None, AffiliationInfo = None\<rparr>,
        \<lparr>LastName = Some (lit ''Poe''), ForeName = None,
          AffiliationInfo = Some [[(lit ''Affiliation'', lit ''Harvard University'')]]\<rparr>,
        \<lparr>LastName = Some (lit ''Doe''), ForeName = Some (lit ''Jane''),
          AffiliationInfo = Some
            [[(lit ''Affiliation'', lit ''Email: none given'')],
             [(lit ''Affiliation'', lit ''Dept, contact: jane.doe@biotech.com'')],
             [(lit ''Affiliation'', lit ''late@x.org'')]]\<rparr>]\<rparr>"

text \<open>
  A record as the parser delivers it when the article has no article date and its
  author no affiliation: both lists are present and empty.
\<close>

definition unaffiliated_article :: article where
  "unaffiliated_article =
     \<lparr>ArticleTitle = Some (lit ''Test Paper 2''), ArticleDate = Some [],
      Journal = Some \<lparr>JournalIssue = Some \<lparr>PubDate = Some [(lit ''Year'', lit ''2023'')]\<rparr>\<rparr>,
      AuthorList = Some [\<lparr>LastName = Some (lit ''Smith''), ForeName = Some (lit ''John''),
                           AffiliationInfo = Some []\<rparr>]\<rparr>"

definition unaffiliated_paper :: pubmed_article where
  "unaffiliated_paper =
     \<lparr>MedlineCitation = Some \<lparr>PMID = Some (lit ''67890''), Article = Some unaffiliated_article\<rparr>\<rparr>"

text \<open>A string of ASCII code points only.\<close>

definition is_ascii :: "pystr \<Rightarrow> bool" where
  "is_ascii s = list_all (\<lambda>c. c < 128) s"

text \<open>
  A raw record on which the loop of \<open>fetch_and_filter_papers\<close> raises nothing: the
  keys it subscripts are there, and no author has an empty list of affiliation
  entries.
\<close>

definition has_required_keys :: "pubmed_article \<Rightarrow> bool" where
  "has_required_keys paper =
     (case MedlineCitation paper of
        None \<Rightarrow> False
      | Some mc \<Rightarrow>
          PMID mc \<noteq> None \<and>
          (case Article mc of
             None \<Rightarrow> False
           | Some art \<Rightarrow>
               ArticleTitle art \<noteq> None \<and>
               list_all (\<lambda>a. AffiliationInfo a \<noteq> Some []) (field_get (AuthorList art) [])))"



section \<open>Properties of the classifier\<close>

lemma startswith_iff: "startswith s k \<longleftrightarrow> (\<exists>b. s = k @ b)"
  by (induction s k rule: startswith.induct) auto

lemma py_in_iff: "py_in k s \<longleftrightarrow> (\<exists>a b. s = a @ k @ b)"
proof (induction s)
  case Nil
  then show ?case by auto
next
  case (Cons c s)
  show ?case
  proof
    assume "py_in k (c # s)"
    then consider "startswith (c # s) k" | "py_in k s" by auto
    then show "\<exists>a b. c # s = a @ k @ b"
    proof cases
      case 1
      then obtain b where "c # s = k @ b" by (auto simp: startswith_iff)
      then have "c # s = [] @ k @ b" by simp
      then show ?thesis by blast
    next
      case 2
      then obtain a b where "s = a @ k @ b" using Cons.IH by blast
      then have "c # s = (c # a) @ k @ b" by simp
      then show ?thesis by blast
    qed
  next
    assume "\<exists>a b. c # s = a @ k @ b"
    then obtain a b where ab: "c # s = a @ k @ b" by blast
    show "py_in k (c # s)"
    proof (cases a)
      case Nil
      with ab have "startswith (c # s) k" by (auto simp: startswith_iff)
      then show ?thesis by simp
    next
      case (Cons x a')
      with ab have "s = a' @ k @ b" by simp
      then have "py_in k s" using Cons.IH by blast
      then show ?thesis by simp
    qed
  qed
qed

lemma keyword_loop_iff:
  "keyword_loop ut ks au \<longleftrightarrow> (\<exists>k\<in>set ks. py_in (py_upper ut k) au)"
  by (induction ks) auto

lemmas eval_str = lit_def py_upper_def upper_cp_def is_ascii_lower_def contains_ci_def

lemma upper_non_company_keywords:
  "map (py_upper ut) spec_non_company_keywords = map (py_upper ut) non_company_keywords"
  by (simp add: spec_non_company_keywords_def non_company_keywords_def eval_str)

lemma upper_company_keywords:
  "map (py_upper ut) spec_company_keywords = map (py_upper ut) company_keywords"
  by (simp add: spec_company_keywords_def company_keywords_def eval_str)

lemma non_company_hit_iff:
  "keyword_loop ut non_company_keywords (py_upper ut s) \<longleftrightarrow>
     (\<exists>k\<in>set spec_non_company_keywords. contains_ci ut s k)"
proof -
  have "keyword_loop ut non_company_keywords (py_upper ut s) \<longleftrightarrow>
        (\<exists>u\<in>set (map (py_upper ut) non_company_keywords). py_in u (py_upper ut s))"
    by (simp add: keyword_loop_iff)
  also have "\<dots> \<longleftrightarrow>
        (\<exists>u\<in>set (map (py_upper ut) spec_non_company_keywords). py_in u (py_upper ut s))"
    by (simp only: upper_non_company_keywords)
  also have "\<dots> \<longleftrightarrow> (\<exists>k\<in>set spec_non_company_keywords. contains_ci ut s k)"
    by (simp add: contains_ci_def)
  finally show ?thesis .
qed

lemma company_hit_iff:
  "keyword_loop ut company_keywords (py_upper ut s) \<longleftrightarrow>
     (\<exists>k\<in>set spec_company_keywords. contains_ci ut s k)"
proof -
  have "keyword_loop ut company_keywords (py_upper ut s) \<longleftrightarrow>
        (\<exists>u\<in>set (map (py_upper ut) company_keywords). py_in u (py_upper ut s))"
    by (simp add: keyword_loop_iff)
  also have "\<dots> \<longleftrightarrow>
        (\<exists>u\<in>set (map (py_upper ut) spec_company_keywords). py_in u (py_upper ut s))"
    by (simp only: upper_company_keywords)
  also have "\<dots> \<longleftrightarrow> (\<exists>k\<in>set spec_company_keywords. contains_ci ut s k)"
    by (simp add: contains_ci_def)
  finally show ?thesis .
qed

lemma contains_ci_iff:
  "contains_ci ut s k \<longleftrightarrow> (\<exists>a b. py_upper ut s = a @ py_upper ut k @ b)"
  by (simp add: contains_ci_def py_in_iff)

lemma is_company_affiliated_contains_ci:
  "is_company_affiliated ut s \<longleftrightarrow>
     (\<exists>k\<in>set spec_company_keywords. contains_ci ut s k) \<and>
     \<not> (\<exists>k\<in>set spec_non_company_keywords. contains_ci ut s k)"
  unfolding non_company_hit_iff [symmetric] company_hit_iff [symmetric]
  by (auto simp: is_company_affiliated_def Let_def)

lemma same_letter_upper_cp: "same_letter ut c d \<Longrightarrow> upper_cp ut c = upper_cp ut d"
  unfolding same_letter_def upper_cp_def is_ascii_lower_def is_ascii_upper_def
  by (elim disjE) auto

lemma case_variant_py_upper: "case_variant ut s t \<Longrightarrow> py_upper ut s = py_upper ut t"
  unfolding case_variant_def py_upper_def
  by (induction s t rule: list_all2_induct) (simp_all add: same_letter_upper_cp)

subsection \<open>The classifier on ASCII strings\<close>

text \<open>
  On ASCII strings the containment of the specification is containment of a
  substring that differs from the keyword only in letter case, so there the
  classifier is characterised without reference to \<open>str.upper\<close>.
\<close>

lemma py_upper_append: "py_upper ut (a @ b) = py_upper ut a @ py_upper ut b"
  by (simp add: py_upper_def)

lemma contains_ci_of_variant:
  assumes "s = a @ u @ b" and "case_variant ut u k"
  shows "contains_ci ut s k"
proof -
  from assms(2) have "py_upper ut u = py_upper ut k" by (rule case_variant_py_upper)
  with assms(1) have "py_upper ut s = py_upper ut a @ py_upper ut k @ py_upper ut b"
    by (simp add: py_upper_append)
  then show ?thesis unfolding contains_ci_iff by blast
qed

lemma py_upper_ascii:
  assumes "is_ascii s"
  shows "py_upper ut s = map (\<lambda>c. if is_ascii_lower c then c - 32 else c) s"
  using assms by (induction s) (simp_all add: is_ascii_def py_upper_def upper_cp_def)

lemma same_upper_same_letter:
  assumes "(if is_ascii_lower c then c - 32 else c) = (if is_ascii_lower d then d - 32 else d)"
  shows "same_letter ut c d"
  using assms unfolding same_letter_def is_ascii_lower_def is_ascii_upper_def
  by (auto split: if_splits)

lemma map_eq_case_variant:
  assumes "map (\<lambda>c. if is_ascii_lower c then c - 32 else c) u
             = map (\<lambda>c. if is_ascii_lower c then c - 32 else c) k"
  shows "case_variant ut u k"
  using assms
proof (induction u arbitrary: k)
  case Nil
  then show ?case by (simp add: case_variant_def)
next
  case (Cons c u)
  then obtain d k' where k: "k = d # k'" by (cases k) auto
  with Cons.prems have "same_letter ut c d" by (intro same_upper_same_letter) simp
  moreover from k Cons.prems have "case_variant ut u k'" by (intro Cons.IH) simp
  ultimately show ?case using k by (simp add: case_variant_def)
qed

lemma variant_of_contains_ci:
  assumes "is_ascii s" and "is_ascii k" and "contains_ci ut s k"
  shows "\<exists>a u b. s = a @ u @ b \<and> case_variant ut u k"
proof -
  let ?f = "\<lambda>c. if is_ascii_lower c then c - 32 else c"
  from assms obtain a' b' where "map ?f s = a' @ map ?f k @ b'"
    unfolding contains_ci_iff by (auto simp: py_upper_ascii)
  then obtain a r where ar: "s = a @ r" "map ?f k @ b' = map ?f r"
    unfolding map_eq_append_conv by blast
  from ar(2) have "map ?f r = map ?f k @ b'" by simp
  then obtain u b where ub: "r = u @ b" "map ?f k = map ?f u"
    unfolding map_eq_append_conv by blast
  from ub(2) have "map ?f u = map ?f k" by simp
  then have "case_variant ut u k" by (rule map_eq_case_variant)
  with ar ub show ?thesis by blast
qed

lemma contains_ci_ascii:
  assumes "is_ascii s" and "is_ascii k"
  shows "contains_ci ut s k \<longleftrightarrow> (\<exists>a u b. s = a @ u @ b \<and> case_variant ut u k)"
proof
  assume "contains_ci ut s k"
  with assms show "\<exists>a u b. s = a @ u @ b \<and> case_variant ut u k"
    by (rule variant_of_contains_ci)
next
  assume "\<exists>a u b. s = a @ u @ b \<and> case_variant ut u k"
  then obtain a u b where "s = a @ u @ b" "case_variant ut u k" by blast
  then show "contains_ci ut s k" by (rule contains_ci_of_variant)
qed

lemma is_ascii_spec_keywords:
  "list_all is_ascii spec_company_keywords" "list_all is_ascii spec_non_company_keywords"
  by (simp_all add: spec_company_keywords_def spec_non_company_keywords_def is_ascii_def lit_def)

lemma is_company_affiliated_ascii:
  assumes "is_ascii s"
  shows "is_company_affiliated ut s \<longleftrightarrow>
     (\<exists>k\<in>set spec_company_keywords. \<exists>a u b. s = a @ u @ b \<and> case_variant ut u k) \<and>
     \<not> (\<exists>k\<in>set spec_non_company_keywords. \<exists>a u b. s = a @ u @ b \<and> case_variant ut u k)"
proof -
  have c1: "contains_ci ut s k \<longleftrightarrow> (\<exists>a u b. s = a @ u @ b \<and> case_variant ut u k)"
    if "k \<in> set spec_company_keywords" for k
  proof -
    from that is_ascii_spec_keywords(1) have "is_ascii k" by (simp add: list_all_iff)
    with assms show ?thesis by (rule contains_ci_ascii)
  qed
  have c2: "contains_ci ut s k \<longleftrightarrow> (\<exists>a u b. s = a @ u @ b \<and> case_variant ut u k)"
    if "k \<in> set spec_non_company_keywords" for k
  proof -
    from that is_ascii_spec_keywords(2) have "is_ascii k" by (simp add: list_all_iff)
    with assms show ?thesis by (rule contains_ci_ascii)
  qed
  have 1: "(\<exists>k\<in>set spec_company_keywords. contains_ci ut s k) \<longleftrightarrow>
      (\<exists>k\<in>set spec_company_keywords. \<exists>a u b. s = a @ u @ b \<and> case_variant ut u k)"
    by (intro bex_cong refl c1)
  have 2: "(\<exists>k\<in>set spec_non_company_keywords. contains_ci ut s k) \<longleftrightarrow>
      (\<exists>k\<in>set spec_non_company_keywords. \<exists>a u b. s = a @ u @ b \<and> case_variant ut u k)"
    by (intro bex_cong refl c2)
  have "is_company_affiliated ut s \<longleftrightarrow>
     (\<exists>k\<in>set spec_company_keywords. contains_ci ut s k) \<and>
     \<not> (\<exists>k\<in>set spec_non_company_keywords. contains_ci ut s k)"
    by (rule is_company_affiliated_contains_ci)
  then show ?thesis by (simp only: 1 2)
qed

subsection \<open>The claims about the classifier\<close>

text \<open>
  C1.  An affiliation that case-insensitively contains one of the non-company
  keywords is classified false by \<open>is_company_affiliated\<close>, whatever else it
  contains: the non-company keywords take precedence over the company keywords.
  Containment is that of the specification, or the presence of a substring that
  differs from the keyword only in letter case.
\<close>

theorem non_company_precedence:
  assumes "k \<in> set spec_non_company_keywords"
    and "contains_ci ut s k \<or> (\<exists>a u b. s = a @ u @ b \<and> case_variant ut u k)"
  shows "\<not> is_company_affiliated ut s"
proof -
  from assms(2) have "contains_ci ut s k"
  proof
    assume "contains_ci ut s k"
    then show ?thesis .
  next
    assume "\<exists>a u b. s = a @ u @ b \<and> case_variant ut u k"
    then obtain a u b where "s = a @ u @ b" "case_variant ut u k" by blast
    then show ?thesis by (rule contains_ci_of_variant)
  qed
  with assms(1) have "keyword_loop ut non_company_keywords (py_upper ut s)"
    unfolding non_company_hit_iff by blast
  then show ?thesis by (simp add: is_company_affiliated_def)
qed

theorem non_company_precedence_witness:
  "lit ''hospital'' \<in> set spec_non_company_keywords
   \<and> lit ''University Hospital Pharma Partnership''
       = lit ''University '' @ lit ''Hospital'' @ lit '' Pharma Partnership''
   \<and> case_variant ascii_tables (lit ''Hospital'') (lit ''hospital'')
   \<and> lit ''pharma'' \<in> set spec_company_keywords
   \<and> contains_ci ascii_tables (lit ''University Hospital Pharma Partnership'') (lit ''pharma'')
   \<and> \<not> is_company_affiliated ascii_tables (lit ''University Hospital Pharma Partnership'')"
proof -
  have k: "lit ''hospital'' \<in> set spec_non_company_keywords"
    by (simp add: spec_non_company_keywords_def)
  have d: "lit ''University Hospital Pharma Partnership''
       = lit ''University '' @ lit ''Hospital'' @ lit '' Pharma Partnership''"
    by (simp add: lit_def)
  have v: "case_variant ascii_tables (lit ''Hospital'') (lit ''hospital'')"
    by (simp add: case_variant_def same_letter_def is_ascii_lower_def is_ascii_upper_def lit_def)
  have k': "lit ''pharma'' \<in> set spec_company_keywords"
    by (simp add: spec_company_keywords_def)
  have c': "contains_ci ascii_tables (lit ''University Hospital Pharma Partnership'') (lit ''pharma'')"
    by (simp add: eval_str)
  from d v have h: "contains_ci ascii_tables (lit ''University Hospital Pharma Partnership'') (lit ''hospital'')
      \<or> (\<exists>a u b. lit ''University Hospital Pharma Partnership'' = a @ u @ b
            \<and> case_variant ascii_tables u (lit ''hospital''))"
    by blast
  from k d v k' c' non_company_precedence [OF k h] show ?thesis by blast
qed

text \<open>
  C2.  \<open>is_company_affiliated\<close> returns true exactly when the affiliation
  case-insensitively contains some company keyword and no non-company keyword.  In
  particular an affiliation that contains no keyword of either list is classified
  false.  On an ASCII string the same holds with containment read as the presence of
  a substring that differs from the keyword only in letter case.
\<close>

theorem is_company_affiliated_iff:
  "(is_company_affiliated ut s \<longleftrightarrow>
      (\<exists>k\<in>set spec_company_keywords. contains_ci ut s k) \<and>
      \<not> (\<exists>k\<in>set spec_non_company_keywords. contains_ci ut s k))
   \<and> (is_ascii s \<longrightarrow>
       (is_company_affiliated ut s \<longleftrightarrow>
          (\<exists>k\<in>set spec_company_keywords. \<exists>a u b. s = a @ u @ b \<and> case_variant ut u k) \<and>
          \<not> (\<exists>k\<in>set spec_non_company_keywords. \<exists>a u b. s = a @ u @ b \<and> case_variant ut u k)))"
proof (intro conjI impI)
  show "is_company_affiliated ut s \<longleftrightarrow>
      (\<exists>k\<in>set spec_company_keywords. contains_ci ut s k) \<and>
      \<not> (\<exists>k\<in>set spec_non_company_keywords. contains_ci ut s k)"
    by (rule is_company_affiliated_contains_ci)
next
  assume "is_ascii s"
  then show "is_company_affiliated ut s \<longleftrightarrow>
          (\<exists>k\<in>set spec_company_keywords. \<exists>a u b. s = a @ u @ b \<and> case_variant ut u k) \<and>
          \<not> (\<exists>k\<in>set spec_non_company_keywords. \<exists>a u b. s = a @ u @ b \<and> case_variant ut u k)"
    by (rule is_company_affiliated_ascii)
qed

theorem is_company_affiliated_iff_witness:
  "is_ascii (lit ''Moderna Therapeutics'')
   \<and> is_company_affiliated ascii_tables (lit ''Moderna Therapeutics'')
   \<and> \<not> is_company_affiliated ascii_tables (lit ''Memorial Sloan Kettering Cancer Center'')
   \<and> \<not> is_company_affiliated ascii_tables (lit ''Stanford Medical School'')"
proof -
  note ci = is_company_affiliated_iff [THEN conjunct1]
  have 0: "is_ascii (lit ''Moderna Therapeutics'')" by (simp add: is_ascii_def lit_def)
  have 1: "lit ''Moderna Therapeutics'' = lit ''Moderna '' @ lit ''Therapeutics'' @ []"
    by (simp add: lit_def)
  have v: "case_variant ascii_tables (lit ''Therapeutics'') (lit ''therapeutics'')"
    by (simp add: case_variant_def same_letter_def is_ascii_lower_def is_ascii_upper_def lit_def)
  have 2: "lit ''therapeutics'' \<in> set spec_company_keywords"
    by (simp add: spec_company_keywords_def)
  have 3: "\<not> (\<exists>k\<in>set spec_non_company_keywords.
             contains_ci ascii_tables (lit ''Moderna Therapeutics'') k)"
    by (simp add: spec_non_company_keywords_def eval_str)
  have 4: "\<not> (\<exists>k\<in>set spec_company_keywords.
             contains_ci ascii_tables (lit ''Memorial Sloan Kettering Cancer Center'') k)"
    by (simp add: spec_company_keywords_def eval_str)
  have 5: "contains_ci ascii_tables (lit ''Stanford Medical School'') (lit ''school'')"
    by (simp add: eval_str)
  have 6: "lit ''school'' \<in> set spec_non_company_keywords"
    by (simp add: spec_non_company_keywords_def)
  from 1 v have "contains_ci ascii_tables (lit ''Moderna Therapeutics'') (lit ''therapeutics'')"
    by (rule contains_ci_of_variant)
  with 2 3 have "is_company_affiliated ascii_tables (lit ''Moderna Therapeutics'')"
    unfolding ci by blast
  moreover from 4
  have "\<not> is_company_affiliated ascii_tables (lit ''Memorial Sloan Kettering Cancer Center'')"
    unfolding ci by blast
  moreover from 5 6
  have "\<not> is_company_affiliated ascii_tables (lit ''Stanford Medical School'')"
    unfolding ci by blast
  ultimately show ?thesis using 0 by blast
qed

text \<open>
  C9.  The claim that any two strings differing only in letter case are classified
  alike fails outside ASCII: "LAB" followed by the capital sharp s and "lab"
  followed by the small sharp s have the same lower-case form, yet the second is
  classified true, its upper-case form "LABSS" containing "LABS", and the first
  false.
\<close>

theorem classification_case_sensitive_sharp_s:
  "py_lower sharp_s_tables (lit ''LAB'' @ [7838]) = lit ''lab'' @ [223]
   \<and> py_lower sharp_s_tables (lit ''lab'' @ [223]) = lit ''lab'' @ [223]
   \<and> py_upper sharp_s_tables (lit ''lab'' @ [223]) = lit ''LABSS''
   \<and> py_upper sharp_s_tables (lit ''LAB'' @ [7838]) = lit ''LAB'' @ [7838]
   \<and> is_company_affiliated sharp_s_tables (lit ''lab'' @ [223]) = True
   \<and> is_company_affiliated sharp_s_tables (lit ''LAB'' @ [7838]) = False"
proof -
  have 1: "py_lower sharp_s_tables (lit ''LAB'' @ [7838]) = lit ''lab'' @ [223]"
    by (simp add: py_lower_def lower_cp_def is_ascii_upper_def sharp_s_tables_def lit_def)
  have 2: "py_lower sharp_s_tables (lit ''lab'' @ [223]) = lit ''lab'' @ [223]"
    by (simp add: py_lower_def lower_cp_def is_ascii_upper_def sharp_s_tables_def lit_def)
  have 3: "py_upper sharp_s_tables (lit ''lab'' @ [223]) = lit ''LABSS''"
    by (simp add: py_upper_def upper_cp_def is_ascii_lower_def sharp_s_tables_def lit_def)
  have 4: "py_upper sharp_s_tables (lit ''LAB'' @ [7838]) = lit ''LAB'' @ [7838]"
    by (simp add: py_upper_def upper_cp_def is_ascii_lower_def sharp_s_tables_def lit_def)
  have 5: "is_company_affiliated sharp_s_tables (lit ''lab'' @ [223])"
    by (simp add: is_company_affiliated_def non_company_keywords_def company_keywords_def
        sharp_s_tables_def eval_str)
  have 6: "\<not> is_company_affiliated sharp_s_tables (lit ''LAB'' @ [7838])"
    by (simp add: is_company_affiliated_def non_company_keywords_def company_keywords_def
        sharp_s_tables_def eval_str)
  from 1 2 3 4 5 6 show ?thesis by simp
qed

text \<open>
  C9, as amended.  Classification is insensitive to the case of ASCII letters:
  \<open>is_company_affiliated\<close> returns the same value on two strings that differ only in
  the case of ASCII letters, whatever the tables of the runtime.  In particular it
  returns the same value, true, on "pfizer inc." and on "PFIZER INC.".
\<close>

theorem classification_case_insensitive:
  "(case_variant ut s t \<longrightarrow> is_company_affiliated ut s = is_company_affiliated ut t)
   \<and> is_company_affiliated ut (lit ''pfizer inc.'') = is_company_affiliated ut (lit ''PFIZER INC.'')
   \<and> is_company_affiliated ut (lit ''PFIZER INC.'') = True"
proof (intro conjI impI)
  assume "case_variant ut s t"
  then have "py_upper ut s = py_upper ut t" by (rule case_variant_py_upper)
  then show "is_company_affiliated ut s = is_company_affiliated ut t"
    by (simp add: is_company_affiliated_def)
next
  have a: "is_company_affiliated ut (lit ''pfizer inc.'')"
    by (simp add: is_company_affiliated_def non_company_keywords_def company_keywords_def eval_str)
  have b: "is_company_affiliated ut (lit ''PFIZER INC.'')"
    by (simp add: is_company_affiliated_def non_company_keywords_def company_keywords_def eval_str)
  from a b
  show "is_company_affiliated ut (lit ''pfizer inc.'') = is_company_affiliated ut (lit ''PFIZER INC.'')"
    by simp
  from b show "is_company_affiliated ut (lit ''PFIZER INC.'') = True" by simp
qed

theorem classification_case_insensitive_witness:
  "case_variant ascii_tables (lit ''Moderna Therapeutics'') (lit ''mODERNA tHERAPEUTICS'')
   \<and> is_company_affiliated ascii_tables (lit ''Moderna Therapeutics'')
       = is_company_affiliated ascii_tables (lit ''mODERNA tHERAPEUTICS'')
   \<and> is_company_affiliated ascii_tables (lit ''mODERNA tHERAPEUTICS'')"
proof -
  have v: "case_variant ascii_tables (lit ''Moderna Therapeutics'') (lit ''mODERNA tHERAPEUTICS'')"
    by (simp add: case_variant_def same_letter_def is_ascii_lower_def is_ascii_upper_def lit_def)
  have e: "is_company_affiliated ascii_tables (lit ''mODERNA tHERAPEUTICS'')"
    by (simp add: is_company_affiliated_def non_company_keywords_def company_keywords_def eval_str)
  from v e classification_case_insensitive
    [of ascii_tables "lit ''Moderna Therapeutics''" "lit ''mODERNA tHERAPEUTICS''"]
  show ?thesis by blast
qed

section \<open>Properties of the fetcher\<close>

text \<open>
  C8.  Construction of the fetcher fails with the configuration error (the
  \<open>ValueError\<close> of the source) exactly when neither the constructor's argument nor
  the environment variable holds a non-empty contact identifier.  When one of them
  does, and the rate is not zero as the specification requires, construction
  succeeds; the identifier kept is the constructor's if it is non-empty and the
  environment's otherwise.
\<close>

theorem init_configuration_error:
  "(PubMedAPI_init email_arg env_email rps = Inl ValueError
      \<longleftrightarrow> \<not> truthy email_arg \<and> \<not> truthy env_email)
   \<and> ((truthy email_arg \<or> truthy env_email) \<and> rps \<noteq> 0 \<longrightarrow>
        (\<exists>self. PubMedAPI_init email_arg env_email rps = Inr self
           \<and> Some (email self) = (if truthy email_arg then email_arg else env_email)
           \<and> min_request_interval self = double_round (1 / rps)))"
  by (auto simp: PubMedAPI_init_def Let_def truthy_def field_get_def split: option.splits)

theorem init_configuration_error_witness:
  "PubMedAPI_init None None 3 = Inl ValueError
   \<and> PubMedAPI_init (Some []) None 3 = Inl ValueError
   \<and> (\<exists>self. PubMedAPI_init None (Some (lit ''test@example.com'')) 3 = Inr self
         \<and> email self = lit ''test@example.com'')
   \<and> (\<exists>self. PubMedAPI_init (Some (lit ''a@b.org'')) (Some (lit ''test@example.com'')) 3 = Inr self
         \<and> email self = lit ''a@b.org'')"
proof -
  have t1: "\<not> truthy None" "\<not> truthy (Some [])" by (simp_all add: truthy_def)
  have t2: "truthy (Some (lit ''test@example.com''))" "truthy (Some (lit ''a@b.org''))"
    by (simp_all add: truthy_def lit_def)
  have "PubMedAPI_init None None 3 = Inl ValueError"
    using init_configuration_error [of None None 3] t1 by blast
  moreover have "PubMedAPI_init (Some []) None 3 = Inl ValueError"
    using init_configuration_error [of "Some []" None 3] t1 by blast
  moreover have "\<exists>self. PubMedAPI_init None (Some (lit ''test@example.com'')) 3 = Inr self
         \<and> email self = lit ''test@example.com''"
    using init_configuration_error [of None "Some (lit ''test@example.com'')" 3] t1 t2 by auto
  moreover have "\<exists>self. PubMedAPI_init (Some (lit ''a@b.org'')) (Some (lit ''test@example.com'')) 3 = Inr self
         \<and> email self = lit ''a@b.org''"
    using init_configuration_error [of "Some (lit ''a@b.org'')" "Some (lit ''test@example.com'')" 3] t2
    by auto
  ultimately show ?thesis by blast
qed













lemma length_stamps: "length (stamps self tks) = length tks"
  by (induction tks arbitrary: self) (simp_all add: Let_def)










text \<open>Every remote request of the three methods is issued after a wait on the instance.\<close>

lemma search_pubmed_state: "fst (search_pubmed self tk r) = wait_for_rate_limit self tk"
  by (simp add: search_pubmed_def)

lemma fetch_details_state: "fst (fetch_details self tk r) = wait_for_rate_limit self tk"
  by (simp add: fetch_details_def)

lemma fetch_and_filter_papers_state:
  "fst (fetch_and_filter_papers ut self tk1 tk2 svc m) =
     (case esearch svc of
        Inl e \<Rightarrow> wait_for_rate_limit self tk1
      | Inr ids \<Rightarrow>
          if ids = [] then wait_for_rate_limit self tk1
          else wait_for_rate_limit (wait_for_rate_limit self tk1) tk2)"
  by (simp add: fetch_and_filter_papers_def Let_def split: sum.splits)




section \<open>Properties of the filter\<close>

lemma set_add_set: "set (set_add xs x) = insert x (set xs)"
  by (auto simp: set_add_def)

lemma set_add_distinct: "distinct xs \<Longrightarrow> distinct (set_add xs x)"
  by (auto simp: set_add_def)

lemma affiliation_entries_loop_set:
  "set (affiliation_entries_loop affs acc) =
     set acc \<union> set (concat (map (\<lambda>aff. case map_of aff (lit ''Affiliation'') of None \<Rightarrow> [] | Some v \<Rightarrow> [v]) affs))"
  by (induction affs arbitrary: acc) (auto simp: set_add_set split: option.splits)

lemma affiliation_entries_loop_distinct:
  "distinct acc \<Longrightarrow> distinct (affiliation_entries_loop affs acc)"
  by (induction affs arbitrary: acc) (auto simp: set_add_distinct split: option.splits)

lemma affiliations_loop_set:
  "set (affiliations_loop as acc) =
     set acc \<union> set (concat (map (\<lambda>a.
       concat (map (\<lambda>aff. case map_of aff (lit ''Affiliation'') of None \<Rightarrow> [] | Some v \<Rightarrow> [v])
         (field_get (AffiliationInfo a) []))) as))"
  by (induction as arbitrary: acc) (auto simp: affiliation_entries_loop_set)

lemma affiliations_loop_distinct:
  "distinct acc \<Longrightarrow> distinct (affiliations_loop as acc)"
  by (induction as arbitrary: acc) (auto simp: affiliation_entries_loop_distinct)

lemma extract_affiliations_total:
  "\<exists>affs. extract_affiliations art = Inr affs
      \<and> set affs = set (affiliation_strings art) \<and> distinct affs"
proof (cases "AuthorList art")
  case None
  then show ?thesis
    by (simp add: extract_affiliations_def subscript_def affiliation_strings_def field_get_def)
next
  case (Some l)
  then show ?thesis
    by (simp add: extract_affiliations_def subscript_def affiliation_strings_def field_get_def
        affiliations_loop_set affiliations_loop_distinct)
qed

lemma company_count_filter:
  "company_count ut affs = int (length (filter (is_company_affiliated ut) affs))"
  by (induction affs) auto

lemma company_count_card:
  assumes "distinct affs"
  shows "company_count ut affs = int (card {a \<in> set affs. is_company_affiliated ut a})"
proof -
  from assms have "distinct (filter (is_company_affiliated ut) affs)" by simp
  then have "card (set (filter (is_company_affiliated ut) affs))
               = length (filter (is_company_affiliated ut) affs)"
    by (rule distinct_card)
  then show ?thesis by (simp add: company_count_filter)
qed

lemma extract_paper_Inr:
  assumes "extract_paper ut paper = Inr d"
  shows "\<exists>mc art. MedlineCitation paper = Some mc \<and> Article mc = Some art
           \<and> extract_affiliations art = Inr (affiliations d)"
  using assms
  by (auto simp: extract_paper_def subscript_def split: option.splits sum.splits)

lemma filter_loop_Inr:
  assumes "filter_loop ut m papers acc = Inr out"
  shows "\<exists>ds. map (extract_paper ut) papers = map Inr ds
           \<and> out = acc @ filter (\<lambda>d. m \<le> company_count ut (affiliations d)) ds"
  using assms
proof (induction papers arbitrary: acc)
  case Nil
  then show ?case by simp
next
  case (Cons paper papers)
  from Cons.prems obtain d where d: "extract_paper ut paper = Inr d"
    by (cases "extract_paper ut paper") auto
  let ?acc' = "if m \<le> company_count ut (affiliations d) then acc @ [d] else acc"
  from Cons.prems d have "filter_loop ut m papers ?acc' = Inr out" by (simp split: if_splits)
  then obtain ds where ds: "map (extract_paper ut) papers = map Inr ds"
      "out = ?acc' @ filter (\<lambda>d. m \<le> company_count ut (affiliations d)) ds"
    using Cons.IH by blast
  from d ds have "map (extract_paper ut) (paper # papers) = map Inr (d # ds)
        \<and> out = acc @ filter (\<lambda>d. m \<le> company_count ut (affiliations d)) (d # ds)"
    by simp
  then show ?case by blast
qed

lemma filter_loop_total:
  assumes "map (extract_paper ut) papers = map Inr ds"
  shows "filter_loop ut m papers acc
           = Inr (acc @ filter (\<lambda>d. m \<le> company_count ut (affiliations d)) ds)"
  using assms
proof (induction papers arbitrary: acc ds)
  case Nil
  then show ?case by simp
next
  case (Cons paper papers)
  then obtain d ds' where "ds = d # ds'" "extract_paper ut paper = Inr d"
      "map (extract_paper ut) papers = map Inr ds'"
    by (cases ds) auto
  with Cons.IH show ?case by simp
qed

lemma fetch_and_filter_papers_Inr:
  assumes "snd (fetch_and_filter_papers ut self tk1 tk2 svc m) = Inr out"
  shows "filter_loop ut m (fetched_batch svc) [] = Inr out"
  using assms
  by (auto simp: fetch_and_filter_papers_def fetched_batch_def Let_def split: sum.splits if_splits)

text \<open>
  C10.  When \<open>fetch_and_filter_papers\<close> returns a list, that list is the fetched
  batch, record by record in the order of the remote service, normalised, with
  exactly the records left out whose count of company affiliations is below the
  threshold: a subsequence of the batch in which every retained record stands once,
  at its place.
\<close>

theorem output_is_filtered_batch:
  assumes "snd (fetch_and_filter_papers ut self tk1 tk2 svc m) = Inr out"
  shows "\<exists>ds. map (extract_paper ut) (fetched_batch svc) = map Inr ds
           \<and> out = filter (\<lambda>d. m \<le> company_count ut (affiliations d)) ds"
  using filter_loop_Inr [OF fetch_and_filter_papers_Inr [OF assms]] by simp

text \<open>
  C5.  When \<open>fetch_and_filter_papers\<close> returns a list, a record of the fetched batch
  is in it if and only if the number of its record-level affiliations that
  \<open>is_company_affiliated\<close> classifies true is at least \<open>min_companies\<close>.  The
  record-level affiliations are the affiliation strings of all affiliation entries
  of all authors, each counted once.
\<close>

theorem retained_iff_company_count:
  assumes "snd (fetch_and_filter_papers ut self tk1 tk2 svc m) = Inr out"
    and "paper \<in> set (fetched_batch svc)"
  shows "\<exists>mc art d. MedlineCitation paper = Some mc \<and> Article mc = Some art
           \<and> extract_paper ut paper = Inr d
           \<and> set (affiliations d) = set (affiliation_strings art)
           \<and> distinct (affiliations d)
           \<and> (d \<in> set out \<longleftrightarrow>
                m \<le> int (card {a \<in> set (affiliation_strings art). is_company_affiliated ut a}))"
proof -
  from filter_loop_Inr [OF fetch_and_filter_papers_Inr [OF assms(1)]]
  obtain ds where ds: "map (extract_paper ut) (fetched_batch svc) = map Inr ds"
      "out = filter (\<lambda>d. m \<le> company_count ut (affiliations d)) ds"
    by auto
  from assms(2) have "extract_paper ut paper \<in> set (map (extract_paper ut) (fetched_batch svc))"
    by simp
  with ds(1) obtain d where d: "d \<in> set ds" "extract_paper ut paper = Inr d" by auto
  from extract_paper_Inr [OF d(2)] obtain mc art where
    mc: "MedlineCitation paper = Some mc" "Article mc = Some art"
      "extract_affiliations art = Inr (affiliations d)"
    by blast
  from extract_affiliations_total [of art] mc(3)
  have a: "set (affiliations d) = set (affiliation_strings art)" "distinct (affiliations d)"
    by auto
  from a have "company_count ut (affiliations d)
      = int (card {a \<in> set (affiliation_strings art). is_company_affiliated ut a})"
    by (simp add: company_count_card)
  with ds(2) d(1) have "d \<in> set out \<longleftrightarrow>
      m \<le> int (card {a \<in> set (affiliation_strings art). is_company_affiliated ut a})"
    by auto
  with mc d a show ?thesis by blast
qed

lemma extract_test_paper: "extract_paper ut test_paper = Inr test_data"
  by (simp add: extract_paper_def test_paper_def test_author_def test_data_def subscript_def
      extract_publication_date_def publication_date_try_def first_item_def field_get_def dict_get_def
      extract_authors_def extract_affiliations_def set_add_def extract_corresponding_email_def
      py_lower_def lower_cp_def is_ascii_upper_def lit_def)

lemma company_count_test_data: "company_count ut (affiliations test_data) = 1"
  by (simp add: test_data_def is_company_affiliated_def non_company_keywords_def
      company_keywords_def lit_def py_upper_def upper_cp_def is_ascii_lower_def)

lemma fetch_test_remote:
  "snd (fetch_and_filter_papers ut self tk1 tk2 test_remote m) = Inr (if m \<le> 1 then [test_data] else [])"
proof -
  have "map (extract_paper ut) [test_paper] = map Inr [test_data]"
    by (simp add: extract_test_paper)
  then have "filter_loop ut m [test_paper] [] =
      Inr ([] @ filter (\<lambda>d. m \<le> company_count ut (affiliations d)) [test_data])"
    by (rule filter_loop_total)
  then show ?thesis
    by (simp add: fetch_and_filter_papers_def Let_def test_remote_def company_count_test_data lit_def)
qed

theorem output_is_filtered_batch_witness:
  "snd (fetch_and_filter_papers ascii_tables
          \<lparr>email = lit ''test@example.com'', min_request_interval = 1 / 3, last_request_time = 0\<rparr>
          \<lparr>reading = 100, oversleep = 0, lag = 0\<rparr> \<lparr>reading = 101, oversleep = 0, lag = 0\<rparr>
          test_remote 1) = Inr [test_data]
   \<and> (\<exists>ds. map (extract_paper ascii_tables) (fetched_batch test_remote) = map Inr ds
         \<and> [test_data] = filter (\<lambda>d. 1 \<le> company_count ascii_tables (affiliations d)) ds)"
proof -
  let ?r = "fetch_and_filter_papers ascii_tables
          \<lparr>email = lit ''test@example.com'', min_request_interval = 1 / 3, last_request_time = 0\<rparr>
          \<lparr>reading = 100, oversleep = 0, lag = 0\<rparr> \<lparr>reading = 101, oversleep = 0, lag = 0\<rparr>
          test_remote 1"
  have h: "snd ?r = Inr [test_data]" by (simp add: fetch_test_remote)
  from output_is_filtered_batch [OF h] h show ?thesis by blast
qed

theorem retained_iff_company_count_witness:
  "snd (fetch_and_filter_papers ascii_tables
          \<lparr>email = lit ''test@example.com'', min_request_interval = 1 / 3, last_request_time = 0\<rparr>
          \<lparr>reading = 100, oversleep = 0, lag = 0\<rparr> \<lparr>reading = 101, oversleep = 0, lag = 0\<rparr>
          test_remote 2) = Inr []
   \<and> test_paper \<in> set (fetched_batch test_remote)
   \<and> (\<exists>mc art d. MedlineCitation test_paper = Some mc \<and> Article mc = Some art
           \<and> extract_paper ascii_tables test_paper = Inr d
           \<and> set (affiliations d) = set (affiliation_strings art)
           \<and> distinct (affiliations d)
           \<and> (d \<in> set [] \<longleftrightarrow>
                2 \<le> int (card {a \<in> set (affiliation_strings art). is_company_affiliated ascii_tables a})))"
proof -
  let ?r = "fetch_and_filter_papers ascii_tables
          \<lparr>email = lit ''test@example.com'', min_request_interval = 1 / 3, last_request_time = 0\<rparr>
          \<lparr>reading = 100, oversleep = 0, lag = 0\<rparr> \<lparr>reading = 101, oversleep = 0, lag = 0\<rparr>
          test_remote 2"
  have h: "snd ?r = Inr []" by (simp add: fetch_test_remote)
  have b: "test_paper \<in> set (fetched_batch test_remote)"
    by (simp add: fetched_batch_def test_remote_def lit_def)
  from retained_iff_company_count [OF h b] h b show ?thesis by blast
qed

section \<open>Properties of the extraction\<close>

lemma plus_greedy_set:
  "r \<in> set (plus_greedy p s) \<longleftrightarrow> (\<exists>u. u \<noteq> [] \<and> s = u @ r \<and> list_all p u)"
proof (induction s)
  case Nil
  then show ?case by simp
next
  case (Cons c s)
  show ?case
  proof (cases "p c")
    case False
    have "\<not> (\<exists>u. u \<noteq> [] \<and> c # s = u @ r \<and> list_all p u)"
    proof
      assume "\<exists>u. u \<noteq> [] \<and> c # s = u @ r \<and> list_all p u"
      then obtain u where u: "u \<noteq> []" "c # s = u @ r" "list_all p u" by blast
      then obtain u' where "u = c # u'" by (cases u) auto
      with u(3) False show False by simp
    qed
    with False show ?thesis by simp
  next
    case True
    show ?thesis
    proof
      assume "r \<in> set (plus_greedy p (c # s))"
      with True consider "r \<in> set (plus_greedy p s)" | "r = s" by auto
      then show "\<exists>u. u \<noteq> [] \<and> c # s = u @ r \<and> list_all p u"
      proof cases
        case 1
        then obtain u where "u \<noteq> []" "s = u @ r" "list_all p u" using Cons.IH by blast
        with True have "c # u \<noteq> [] \<and> c # s = (c # u) @ r \<and> list_all p (c # u)" by simp
        then show ?thesis by blast
      next
        case 2
        with True have "[c] \<noteq> [] \<and> c # s = [c] @ r \<and> list_all p [c]" by simp
        then show ?thesis by blast
      qed
    next
      assume "\<exists>u. u \<noteq> [] \<and> c # s = u @ r \<and> list_all p u"
      then obtain u where u: "u \<noteq> []" "c # s = u @ r" "list_all p u" by blast
      then obtain u' where u': "u = c # u'" by (cases u) auto
      show "r \<in> set (plus_greedy p (c # s))"
      proof (cases "u' = []")
        case True
        with u u' have "r = s" by simp
        with \<open>p c\<close> show ?thesis by simp
      next
        case False
        with u u' have "u' \<noteq> [] \<and> s = u' @ r \<and> list_all p u'" by simp
        then have "r \<in> set (plus_greedy p s)" using Cons.IH by blast
        with \<open>p c\<close> show ?thesis by simp
      qed
    qed
  qed
qed

lemma literal_set: "r \<in> set (literal c s) \<longleftrightarrow> s = c # r"
  by (auto simp: literal_def split: list.splits)

lemma in_concat_map: "r \<in> set (concat (map f xs)) \<longleftrightarrow> (\<exists>x\<in>set xs. r \<in> set (f x))"
  by auto

lemma email_pattern_nested:
  "r \<in> set (email_pattern ut s) \<longleftrightarrow>
     (\<exists>s1\<in>set (plus_greedy (is_word_dot_hyphen ut) s).
        \<exists>s2\<in>set (literal 64 s1).
          \<exists>s3\<in>set (plus_greedy (is_word_dot_hyphen ut) s2).
            \<exists>s4\<in>set (literal 46 s3). r \<in> set (plus_greedy (is_word ut) s4))"
  unfolding email_pattern_def by (simp only: in_concat_map)

lemma email_pattern_set:
  "r \<in> set (email_pattern ut s) \<longleftrightarrow>
     (\<exists>l d t. s = l @ 64 # d @ 46 # t @ r
        \<and> l \<noteq> [] \<and> list_all (is_word_dot_hyphen ut) l
        \<and> d \<noteq> [] \<and> list_all (is_word_dot_hyphen ut) d
        \<and> t \<noteq> [] \<and> list_all (is_word ut) t)"
proof
  assume "r \<in> set (email_pattern ut s)"
  then obtain s1 s2 s3 s4 where
    1: "s1 \<in> set (plus_greedy (is_word_dot_hyphen ut) s)" and
    2: "s2 \<in> set (literal 64 s1)" and
    3: "s3 \<in> set (plus_greedy (is_word_dot_hyphen ut) s2)" and
    4: "s4 \<in> set (literal 46 s3)" and
    5: "r \<in> set (plus_greedy (is_word ut) s4)"
    unfolding email_pattern_nested by blast
  from 1 obtain l where l: "l \<noteq> []" "s = l @ s1" "list_all (is_word_dot_hyphen ut) l"
    unfolding plus_greedy_set by blast
  from 2 have s1: "s1 = 64 # s2" by (simp add: literal_set)
  from 3 obtain d where d: "d \<noteq> []" "s2 = d @ s3" "list_all (is_word_dot_hyphen ut) d"
    unfolding plus_greedy_set by blast
  from 4 have s3: "s3 = 46 # s4" by (simp add: literal_set)
  from 5 obtain t where t: "t \<noteq> []" "s4 = t @ r" "list_all (is_word ut) t"
    unfolding plus_greedy_set by blast
  from l s1 d s3 t have "s = l @ 64 # d @ 46 # t @ r" by simp
  with l d t show "\<exists>l d t. s = l @ 64 # d @ 46 # t @ r
        \<and> l \<noteq> [] \<and> list_all (is_word_dot_hyphen ut) l
        \<and> d \<noteq> [] \<and> list_all (is_word_dot_hyphen ut) d
        \<and> t \<noteq> [] \<and> list_all (is_word ut) t"
    by blast
next
  assume "\<exists>l d t. s = l @ 64 # d @ 46 # t @ r
        \<and> l \<noteq> [] \<and> list_all (is_word_dot_hyphen ut) l
        \<and> d \<noteq> [] \<and> list_all (is_word_dot_hyphen ut) d
        \<and> t \<noteq> [] \<and> list_all (is_word ut) t"
  then obtain l d t where s: "s = l @ 64 # d @ 46 # t @ r"
    and l: "l \<noteq> []" "list_all (is_word_dot_hyphen ut) l"
    and d: "d \<noteq> []" "list_all (is_word_dot_hyphen ut) d"
    and t: "t \<noteq> []" "list_all (is_word ut) t"
    by blast
  have 1: "64 # d @ 46 # t @ r \<in> set (plus_greedy (is_word_dot_hyphen ut) s)"
    unfolding plus_greedy_set using s l by blast
  have 2: "d @ 46 # t @ r \<in> set (literal 64 (64 # d @ 46 # t @ r))"
    by (simp add: literal_set)
  have 3: "46 # t @ r \<in> set (plus_greedy (is_word_dot_hyphen ut) (d @ 46 # t @ r))"
    unfolding plus_greedy_set using d by blast
  have 4: "t @ r \<in> set (literal 46 (46 # t @ r))"
    by (simp add: literal_set)
  have 5: "r \<in> set (plus_greedy (is_word ut) (t @ r))"
    unfolding plus_greedy_set using t by blast
  from 1 2 3 4 5 show "r \<in> set (email_pattern ut s)"
    unfolding email_pattern_nested by blast
qed

lemma match_here_Some:
  assumes "match_here ut s = Some m"
  shows "email_shape ut m \<and> (\<exists>r. s = m @ r)"
proof -
  from assms obtain r rs where rs: "email_pattern ut s = r # rs"
    and m: "m = take (length s - length r) s"
    by (auto simp: match_here_def split: list.splits)
  from rs have "r \<in> set (email_pattern ut s)" by simp
  then obtain l d t where s: "s = l @ 64 # d @ 46 # t @ r"
    and sh: "l \<noteq> []" "list_all (is_word_dot_hyphen ut) l"
      "d \<noteq> []" "list_all (is_word_dot_hyphen ut) d"
      "t \<noteq> []" "list_all (is_word ut) t"
    unfolding email_pattern_set by blast
  from s have "s = (l @ 64 # d @ 46 # t) @ r" by simp
  with m have m': "m = l @ 64 # d @ 46 # t" by simp
  with sh have "email_shape ut m" unfolding email_shape_def by blast
  moreover from s m' have "s = m @ r" by simp
  ultimately show ?thesis by blast
qed

lemma match_here_None:
  "match_here ut s = None \<longleftrightarrow> \<not> (\<exists>m r. s = m @ r \<and> email_shape ut m)"
proof -
  have "match_here ut s = None \<longleftrightarrow> email_pattern ut s = []"
    by (simp add: match_here_def split: list.splits)
  also have "\<dots> \<longleftrightarrow> (\<forall>r. r \<notin> set (email_pattern ut s))"
    by (cases "email_pattern ut s") auto
  also have "\<dots> \<longleftrightarrow> \<not> (\<exists>m r. s = m @ r \<and> email_shape ut m)"
  proof -
    have "(\<exists>r. r \<in> set (email_pattern ut s)) \<longleftrightarrow> (\<exists>m r. s = m @ r \<and> email_shape ut m)"
    proof
      assume "\<exists>r. r \<in> set (email_pattern ut s)"
      then obtain r l d t where s: "s = l @ 64 # d @ 46 # t @ r"
        and sh: "l \<noteq> []" "list_all (is_word_dot_hyphen ut) l"
          "d \<noteq> []" "list_all (is_word_dot_hyphen ut) d"
          "t \<noteq> []" "list_all (is_word ut) t"
        unfolding email_pattern_set by blast
      from sh have "email_shape ut (l @ 64 # d @ 46 # t)" unfolding email_shape_def by blast
      moreover from s have "s = (l @ 64 # d @ 46 # t) @ r" by simp
      ultimately show "\<exists>m r. s = m @ r \<and> email_shape ut m" by blast
    next
      assume "\<exists>m r. s = m @ r \<and> email_shape ut m"
      then obtain m r where mr: "s = m @ r" and "email_shape ut m" by blast
      then obtain l d t where m: "m = l @ 64 # d @ 46 # t"
        and sh: "l \<noteq> []" "list_all (is_word_dot_hyphen ut) l"
          "d \<noteq> []" "list_all (is_word_dot_hyphen ut) d"
          "t \<noteq> []" "list_all (is_word ut) t"
        unfolding email_shape_def by blast
      from mr m have "s = l @ 64 # d @ 46 # t @ r" by simp
      with sh have "r \<in> set (email_pattern ut s)" unfolding email_pattern_set by blast
      then show "\<exists>r. r \<in> set (email_pattern ut s)" by blast
    qed
    then show ?thesis by blast
  qed
  finally show ?thesis .
qed

lemma re_search_Some:
  assumes "re_search ut s = Some m"
  shows "email_shape ut m \<and> (\<exists>a b. s = a @ m @ b)"
  using assms
proof (induction s)
  case Nil
  then have "match_here ut [] = Some m" by simp
  from match_here_Some [OF this] obtain r where "email_shape ut m" "[] = m @ r" by blast
  then have "email_shape ut m \<and> [] = [] @ m @ r" by simp
  then show ?case by blast
next
  case (Cons c s)
  show ?case
  proof (cases "match_here ut (c # s)")
    case (Some m')
    with Cons.prems have "match_here ut (c # s) = Some m" by simp
    from match_here_Some [OF this] obtain r where "email_shape ut m" "c # s = m @ r" by blast
    then have "email_shape ut m \<and> c # s = [] @ m @ r" by simp
    then show ?thesis by blast
  next
    case None
    with Cons.prems have "re_search ut s = Some m" by simp
    then obtain a b where "email_shape ut m" "s = a @ m @ b" using Cons.IH by blast
    then have "email_shape ut m \<and> c # s = (c # a) @ m @ b" by simp
    then show ?thesis by blast
  qed
qed

lemma re_search_None:
  "re_search ut s = None \<longleftrightarrow> \<not> (\<exists>a m b. s = a @ m @ b \<and> email_shape ut m)"
proof (induction s)
  case Nil
  have "re_search ut [] = None \<longleftrightarrow> \<not> (\<exists>m r. [] = m @ r \<and> email_shape ut m)"
    by (simp only: re_search.simps match_here_None)
  also have "\<dots> \<longleftrightarrow> \<not> (\<exists>a m b. [] = a @ m @ b \<and> email_shape ut m)" by simp
  finally show ?case .
next
  case (Cons c s)
  have here: "match_here ut (c # s) = None \<longleftrightarrow> \<not> (\<exists>m r. c # s = m @ r \<and> email_shape ut m)"
    by (rule match_here_None)
  have split: "(\<exists>a m b. c # s = a @ m @ b \<and> email_shape ut m) \<longleftrightarrow>
      (\<exists>m r. c # s = m @ r \<and> email_shape ut m) \<or> (\<exists>a m b. s = a @ m @ b \<and> email_shape ut m)"
  proof
    assume "\<exists>a m b. c # s = a @ m @ b \<and> email_shape ut m"
    then obtain a m b where amb: "c # s = a @ m @ b" "email_shape ut m" by blast
    show "(\<exists>m r. c # s = m @ r \<and> email_shape ut m) \<or> (\<exists>a m b. s = a @ m @ b \<and> email_shape ut m)"
    proof (cases a)
      case Nil
      with amb have "c # s = m @ b \<and> email_shape ut m" by simp
      then show ?thesis by blast
    next
      case (Cons x a')
      with amb have "s = a' @ m @ b \<and> email_shape ut m" by simp
      then show ?thesis by blast
    qed
  next
    assume "(\<exists>m r. c # s = m @ r \<and> email_shape ut m) \<or> (\<exists>a m b. s = a @ m @ b \<and> email_shape ut m)"
    then show "\<exists>a m b. c # s = a @ m @ b \<and> email_shape ut m"
    proof
      assume "\<exists>m r. c # s = m @ r \<and> email_shape ut m"
      then obtain m r where "c # s = [] @ m @ r \<and> email_shape ut m" by auto
      then show ?thesis by blast
    next
      assume "\<exists>a m b. s = a @ m @ b \<and> email_shape ut m"
      then obtain a m b where "c # s = (c # a) @ m @ b \<and> email_shape ut m" by auto
      then show ?thesis by blast
    qed
  qed
  have "re_search ut (c # s) = None \<longleftrightarrow> match_here ut (c # s) = None \<and> re_search ut s = None"
    by (simp split: option.splits)
  with here Cons.IH split show ?case by simp
qed

lemma first_match_append:
  "first_match (xs @ ys) = (case first_match xs of Some m \<Rightarrow> Some m | None \<Rightarrow> first_match ys)"
  by (induction xs rule: first_match.induct) simp_all

lemma email_entries_loop_eq:
  "email_entries_loop ut affs =
     first_match (map (re_search ut)
       (filter (mentions_email ut) (map (\<lambda>aff. dict_get aff (lit ''Affiliation'') []) affs)))"
  by (induction affs) (simp_all add: Let_def mentions_email_def split: option.splits)

lemma email_loop_eq:
  "email_loop ut as =
     first_match (map (re_search ut)
       (filter (mentions_email ut)
         (concat (map (\<lambda>a. case AffiliationInfo a of
                        None \<Rightarrow> []
                      | Some affs \<Rightarrow> map (\<lambda>aff. dict_get aff (lit ''Affiliation'') []) affs) as))))"
  by (induction "as")
     (simp_all add: email_entries_loop_eq first_match_append split: option.splits)

lemma extract_corresponding_email_eq:
  "extract_corresponding_email ut art =
     Inr (first_match (map (re_search ut) (filter (mentions_email ut) (affiliation_texts art))))"
  by (cases "AuthorList art")
     (simp_all add: extract_corresponding_email_def subscript_def affiliation_texts_def
        field_get_def email_loop_eq)

lemma email_shape_at_sign: "email_shape ut m \<Longrightarrow> 64 \<in> set m"
  by (auto simp: email_shape_def)

lemma re_search_mentions_email:
  assumes "re_search ut text = Some m"
  shows "mentions_email ut text"
proof -
  from re_search_Some [OF assms] obtain a b where "email_shape ut m" "text = a @ m @ b" by blast
  then obtain l r where "text = a @ (l @ 64 # r) @ b" by (auto simp: email_shape_def)
  then have "text = (a @ l) @ [64] @ (r @ b)" by simp
  then have "py_in [64] text" unfolding py_in_iff by blast
  then show ?thesis by (simp add: mentions_email_def lit_def)
qed

lemma prefilter_changes_nothing:
  "first_match (map (re_search ut) (filter (mentions_email ut) texts))
     = first_match (map (re_search ut) texts)"
proof (induction texts)
  case Nil
  then show ?case by simp
next
  case (Cons tx texts)
  show ?case
  proof (cases "re_search ut tx")
    case None
    with Cons.IH show ?thesis by simp
  next
    case (Some m)
    then have "mentions_email ut tx" by (rule re_search_mentions_email)
    with Some show ?thesis by simp
  qed
qed

text \<open>
  C7.  The corresponding email is found by going through the affiliation texts in
  order, authors first and each author's entries in order, keeping only the texts
  that contain an at sign or, in any letter case, the word "email", searching each
  for the pattern, and returning the first match; when no text yields a match the
  result is nothing.  A match of a text is a substring of it that has the shape of
  an address, and the search of a text fails exactly when the text has no such
  substring, so a text that passes the test and holds no address yields nothing.
\<close>

theorem corresponding_email_first_match:
  "extract_corresponding_email ut art =
     Inr (first_match (map (re_search ut) (filter (mentions_email ut) (affiliation_texts art))))
   \<and> (re_search ut s = Some m \<longrightarrow> email_shape ut m \<and> (\<exists>a b. s = a @ m @ b))
   \<and> (re_search ut s = None \<longleftrightarrow> \<not> (\<exists>a m b. s = a @ m @ b \<and> email_shape ut m))"
  using extract_corresponding_email_eq [of ut art] re_search_Some [of ut s m] re_search_None [of ut s]
  by blast

lemmas eval_re = match_here_def email_pattern_def literal_def is_word_dot_hyphen_def is_word_def
  is_ascii_lower_def is_ascii_upper_def is_ascii_digit_def lit_def

theorem corresponding_email_first_match_witness:
  "extract_corresponding_email ascii_tables email_article = Inr (Some (lit ''jane.doe@biotech.com''))
   \<and> mentions_email ascii_tables (lit ''Email: none given'')
   \<and> re_search ascii_tables (lit ''Email: none given'') = None
   \<and> email_shape ascii_tables (lit ''jane.doe@biotech.com'')"
proof -
  have t: "affiliation_texts email_article =
      [lit ''Harvard University'', lit ''Email: none given'',
       lit ''Dept, contact: jane.doe@biotech.com'', lit ''late@x.org'']"
    by (simp add: affiliation_texts_def email_article_def field_get_def dict_get_def lit_def)
  have m1: "\<not> mentions_email ascii_tables (lit ''Harvard University'')"
    by (simp add: mentions_email_def py_lower_def lower_cp_def is_ascii_upper_def lit_def)
  have m2: "mentions_email ascii_tables (lit ''Email: none given'')"
    by (simp add: mentions_email_def py_lower_def lower_cp_def is_ascii_upper_def lit_def)
  have m3: "mentions_email ascii_tables (lit ''Dept, contact: jane.doe@biotech.com'')"
    by (simp add: mentions_email_def py_lower_def lower_cp_def is_ascii_upper_def lit_def)
  have r2: "re_search ascii_tables (lit ''Email: none given'') = None"
    by (simp add: eval_re)
  have r3: "re_search ascii_tables (lit ''Dept, contact: jane.doe@biotech.com'')
              = Some (lit ''jane.doe@biotech.com'')"
    by (simp add: eval_re)
  note c = corresponding_email_first_match [of ascii_tables email_article
      "lit ''Dept, contact: jane.doe@biotech.com''" "lit ''jane.doe@biotech.com''"]
  from c t m1 m2 m3 r2 r3
  have "extract_corresponding_email ascii_tables email_article = Inr (Some (lit ''jane.doe@biotech.com''))"
    by simp
  moreover from c r3 have "email_shape ascii_tables (lit ''jane.doe@biotech.com'')" by blast
  ultimately show ?thesis using m2 r2 by blast
qed

lemma publication_date_never_raises: "\<exists>v. extract_publication_date art = Inr v"
  by (auto simp: extract_publication_date_def publication_date_try_def first_item_def
      subscript_def split: sum.splits list.splits option.splits)

lemma publication_date_of_article_date:
  assumes "ArticleDate art = Some (d # ds)" and "d \<noteq> []"
  shows "extract_publication_date art =
           Inr (dict_get d (lit ''Year'') [] @ lit ''-'' @ dict_get d (lit ''Month'') [] @ lit ''-''
                @ dict_get d (lit ''Day'') [])"
  using assms
  by (simp add: extract_publication_date_def publication_date_try_def first_item_def field_get_def)

lemma publication_date_fallback:
  assumes "ArticleDate art = None \<or> (\<exists>ds. ArticleDate art = Some ([] # ds))"
  shows "extract_publication_date art =
           Inr (case Journal art of
                  None \<Rightarrow> []
                | Some j \<Rightarrow>
                    (case JournalIssue j of
                       None \<Rightarrow> []
                     | Some ji \<Rightarrow>
                         (case PubDate ji of None \<Rightarrow> [] | Some pd \<Rightarrow> dict_get pd (lit ''Year'') [])))"
  using assms
  by (auto simp: extract_publication_date_def publication_date_try_def first_item_def field_get_def
      subscript_def split: option.splits)

lemma publication_date_empty_list:
  assumes "ArticleDate art = Some []"
  shows "extract_publication_date art = Inr []"
  using assms
  by (simp add: extract_publication_date_def publication_date_try_def first_item_def field_get_def)

text \<open>
  C6.  The publication date is the hyphen-joined year, month and day of the first
  article date when that record is not empty, and the year of the journal issue
  when the key of the article dates is missing or the first article date is an empty
  record; it is empty when the journal path is missing too.  The claim that an
  absent article date falls back to the journal year fails where the list of article
  dates is present and empty: the result is the empty string although the journal
  issue has a year, and the same article without the key yields that year.
\<close>

theorem publication_date_no_fallback_on_empty_list:
  "ArticleDate unaffiliated_article = Some []
   \<and> extract_publication_date unaffiliated_article = Inr []
   \<and> extract_publication_date (unaffiliated_article\<lparr>ArticleDate := None\<rparr>) = Inr (lit ''2023'')"
  by (simp add: unaffiliated_article_def extract_publication_date_def
      publication_date_try_def first_item_def field_get_def subscript_def dict_get_def lit_def)

lemma authors_loop_error:
  "snd (authors_loop aus acc) =
     (if \<exists>a\<in>set aus. AffiliationInfo a = Some [] then Some IndexError else None)"
proof (induction aus arbitrary: acc)
  case Nil
  then show ?case by simp
next
  case (Cons a aus)
  show ?case
  proof (cases "AffiliationInfo a = Some []")
    case True
    then show ?thesis by (simp add: first_item_def field_get_def)
  next
    case False
    then obtain x xs where "field_get (AffiliationInfo a) [[]] = x # xs"
      by (cases "AffiliationInfo a"; cases "the (AffiliationInfo a)") (auto simp: field_get_def)
    with False Cons.IH show ?thesis by (simp add: first_item_def)
  qed
qed

lemma extract_authors_raises_iff:
  "extract_authors art = Inl e \<longleftrightarrow>
     e = IndexError \<and> (\<exists>l. AuthorList art = Some l \<and> (\<exists>a\<in>set l. AffiliationInfo a = Some []))"
proof (cases "AuthorList art")
  case None
  then show ?thesis by (simp add: extract_authors_def subscript_def)
next
  case (Some l)
  obtain acc err where r: "authors_loop l [] = (acc, err)" by (cases "authors_loop l []")
  with authors_loop_error [of l "[]"]
  have "err = (if \<exists>a\<in>set l. AffiliationInfo a = Some [] then Some IndexError else None)" by simp
  with Some r show ?thesis by (auto simp: extract_authors_def subscript_def)
qed

lemma extract_affiliations_never_raises: "\<exists>v. extract_affiliations art = Inr v"
  by (simp add: extract_affiliations_def subscript_def split: option.splits)

lemma extract_corresponding_email_never_raises: "\<exists>v. extract_corresponding_email ut art = Inr v"
  by (simp add: extract_corresponding_email_def subscript_def split: option.splits)

text \<open>
  C4.  The extraction of the publication date, of the record-level affiliations and
  of the corresponding email never raises.  The extraction of the authors does: an
  author whose list of affiliation entries is present and empty makes it raise
  \<open>IndexError\<close>, which no handler catches, so the exception leaves
  \<open>fetch_and_filter_papers\<close> and the whole batch is lost.
\<close>

theorem extract_authors_raises_on_empty_affiliation_list:
  "extract_authors unaffiliated_article = Inl IndexError
   \<and> extract_paper ut unaffiliated_paper = Inl IndexError
   \<and> snd (fetch_and_filter_papers ut self tk1 tk2
            \<lparr>esearch = Inr [lit ''67890''], efetch = Inr [unaffiliated_paper]\<rparr> m) = Inl IndexError"
proof -
  have a: "extract_authors unaffiliated_article = Inl IndexError"
    by (simp add: unaffiliated_article_def extract_authors_def subscript_def
        first_item_def field_get_def)
  have p: "extract_paper ut unaffiliated_paper = Inl IndexError"
    by (simp add: unaffiliated_paper_def unaffiliated_article_def extract_paper_def
        extract_authors_def subscript_def first_item_def field_get_def
        extract_publication_date_def publication_date_try_def)
  from p have "snd (fetch_and_filter_papers ut self tk1 tk2
            \<lparr>esearch = Inr [lit ''67890''], efetch = Inr [unaffiliated_paper]\<rparr> m) = Inl IndexError"
    by (simp add: fetch_and_filter_papers_def Let_def lit_def)
  with a p show ?thesis by blast
qed

subsection \<open>When the filter returns\<close>

lemma extract_paper_returns:
  assumes "has_required_keys paper"
  shows "\<exists>d. extract_paper ut paper = Inr d"
proof -
  from assms obtain mc art p t where k: "MedlineCitation paper = Some mc" "Article mc = Some art"
      "PMID mc = Some p" "ArticleTitle art = Some t"
      and l: "list_all (\<lambda>a. AffiliationInfo a \<noteq> Some []) (field_get (AuthorList art) [])"
    by (auto simp: has_required_keys_def split: option.splits)
  have "\<not> (\<exists>e. extract_authors art = Inl e)"
    unfolding extract_authors_raises_iff using l by (auto simp: field_get_def list_all_iff)
  then obtain aus where aus: "extract_authors art = Inr aus" by (cases "extract_authors art") auto
  obtain d where d: "extract_publication_date art = Inr d"
    using publication_date_never_raises by blast
  obtain affs where affs: "extract_affiliations art = Inr affs"
    using extract_affiliations_never_raises by blast
  obtain em where em: "extract_corresponding_email ut art = Inr em"
    using extract_corresponding_email_never_raises by blast
  from k aus d affs em show ?thesis by (simp add: extract_paper_def subscript_def)
qed

lemma map_extract_paper_returns:
  assumes "list_all has_required_keys papers"
  shows "\<exists>ds. map (extract_paper ut) papers = map Inr ds"
  using assms
proof (induction papers)
  case Nil
  then show ?case by simp
next
  case (Cons paper papers)
  then obtain ds where ds: "map (extract_paper ut) papers = map Inr ds" by auto
  from Cons.prems obtain d where "extract_paper ut paper = Inr d"
    using extract_paper_returns by auto
  with ds have "map (extract_paper ut) (paper # papers) = map Inr (d # ds)" by simp
  then show ?case by blast
qed

lemma fetch_and_filter_papers_returns:
  assumes "esearch svc = Inr ids" and "efetch svc = Inr papers"
    and "list_all has_required_keys papers"
  shows "\<exists>out. snd (fetch_and_filter_papers ut self tk1 tk2 svc m) = Inr out"
proof -
  from assms(3) obtain ds where "map (extract_paper ut) papers = map Inr ds"
    using map_extract_paper_returns by blast
  then have "filter_loop ut m papers []
      = Inr ([] @ filter (\<lambda>d. m \<le> company_count ut (affiliations d)) ds)"
    by (rule filter_loop_total)
  with assms(1,2) show ?thesis by (simp add: fetch_and_filter_papers_def Let_def)
qed

end
